theory Spec2Isabelle
  imports Main "HOL-Library.Sublist"
begin

section \<open>Data model\<close>

text \<open>
  The repository holds several revisions of one module, \<^verbatim>\<open>stackedSeriesGapFix\<close>.
  A chart series is an object with an optional \<^verbatim>\<open>id\<close> and a \<^verbatim>\<open>data\<close> array of points;
  a point is an object \<^verbatim>\<open>{x, y}\<close> where \<^verbatim>\<open>y\<close> may be \<^verbatim>\<open>null\<close>, to which the code
  adds a \<^verbatim>\<open>type\<close> field and, on the points it creates, a \<^verbatim>\<open>marker\<close> object.

  A JavaScript number is an IEEE-754 double. The numbers of the input (timestamps in
  milliseconds and values) are taken to be integer-valued doubles, and the sums and
  differences the code computes are rounded, as \<open>jsAdd\<close> and \<open>jsSub\<close> below say.
  \<^verbatim>\<open>null\<close> in \<^verbatim>\<open>y\<close> is \<open>None\<close>; a field that is \<^verbatim>\<open>undefined\<close> is \<open>None\<close>.
  The series objects, their data arrays and their points are taken to be pairwise distinct
  objects, so in-place mutation is explicit state passing. The only exception the code
  can raise on such input is the \<^verbatim>\<open>TypeError\<close> of reading a property of \<^verbatim>\<open>undefined\<close>.
\<close>

datatype error = TypeError

text \<open>The values of the \<^verbatim>\<open>type\<close> field the revisions write: 'gap', 'gapfix', 'fix'.\<close>

datatype ptag = TGap | TGapFix | TFix

text \<open>\<^verbatim>\<open>marker: {enabled: false, states: {hover: {enabled: false}}}\<close>\<close>

record marker =
  enabled :: bool
  hover_enabled :: bool

record point =
  px :: int
  py :: "int option"
  ptype :: "ptag option"
  pmarker :: "marker option"

datatype sid = IdNum int | IdStr string

record series =
  sid :: "sid option"
  sdata :: "point list"

text \<open>The gap record pushed by the scan of revision 1.1.0: \<^verbatim>\<open>{ids, index, x, y}\<close>.\<close>

record gap =
  gids :: "sid list"
  gindex :: nat
  gx :: int
  gy :: "int option"

text \<open>
  Number arithmetic on integer values. A double has a significand of 53 bits: every integer
  of magnitude up to \<open>2^53 = 9007199254740992\<close> is a double, and a larger magnitude \<open>m\<close> with
  \<open>2^e \<le> m < 2^(e+1)\<close> is one when it is a multiple of \<open>2^(e-52)\<close>, the spacing
  \<open>ulp m\<close> of the doubles there. \<^verbatim>\<open>a + b\<close> and \<^verbatim>\<open>a - b\<close> are the exact result rounded to
  the nearest double, a tie going to the even significand. Results of magnitude \<open>2^1024\<close>
  and more (\<^verbatim>\<open>Infinity\<close>) are not represented.
\<close>

function ulp :: "int \<Rightarrow> int" where
  "ulp m = (if m < 9007199254740992 then 1 else 2 * ulp (m div 2))"
  by pat_completeness auto
termination
  by (relation "measure nat") auto

declare ulp.simps [simp del]

definition roundDouble :: "int \<Rightarrow> int" where
  "roundDouble n =
     (let m = \<bar>n\<bar>; u = ulp m; q = m div u; r = m mod u; lo = q * u
      in sgn n * (if 2 * r < u then lo
                  else if u < 2 * r then lo + u
                  else if even q then lo else lo + u))"

definition jsAdd :: "int \<Rightarrow> int \<Rightarrow> int" where
  "jsAdd a b = roundDouble (a + b)"

definition jsSub :: "int \<Rightarrow> int \<Rightarrow> int" where
  "jsSub a b = roundDouble (a - b)"

text \<open>Insertion by \<^verbatim>\<open>data.splice(index, 0, p)\<close>; a start index past the end appends.\<close>

definition splice0 :: "nat \<Rightarrow> 'a \<Rightarrow> 'a list \<Rightarrow> 'a list" where
  "splice0 index p data = take index data @ p # drop index data"

section \<open>Revision 1.1.0 (src/unnamed/part_000)\<close>

text \<open>\<^verbatim>\<open>var fixTimeDistance = 1000;\<close> The functions below take the distance as their first
  argument, so that the behaviour at other distances can be stated too.\<close>

definition fixTimeDistance :: int where
  "fixTimeDistance = 1000"

text \<open>
  \<^verbatim>\<open>getPrev(data, index)\<close>: the loop \<^verbatim>\<open>while (index >= 0) { index--; var prev = data[index]; ... }\<close>.
  The index is a non-negative integer, so the loop condition holds on every entry; after the
  decrement \<^verbatim>\<open>data[index]\<close> is \<^verbatim>\<open>undefined\<close> when the index is \<open>-1\<close> or past the
  end, and reading \<^verbatim>\<open>prev.type\<close> raises. The result is \<^verbatim>\<open>null\<close> (\<open>None\<close>) or \<^verbatim>\<open>{x, y}\<close>.
\<close>

fun getPrev :: "point list \<Rightarrow> nat \<Rightarrow> error + (int \<times> int) option" where
  "getPrev data 0 = Inl TypeError"
| "getPrev data (Suc i) =
     (if length data \<le> i then Inl TypeError
      else if ptype (data ! i) = Some TGap then Inr None
      else (case py (data ! i) of
              Some v \<Rightarrow> Inr (Some (px (data ! i), v))
            | None \<Rightarrow> getPrev data i))"

text \<open>\<^verbatim>\<open>getNext(data, index)\<close>: \<^verbatim>\<open>while (index < data.length - 1) { index++; ... } return null;\<close>\<close>

function getNext :: "point list \<Rightarrow> nat \<Rightarrow> (int \<times> int) option" where
  "getNext data index =
     (if Suc index < length data then
        (if ptype (data ! Suc index) = Some TGap then None
         else (case py (data ! Suc index) of
                 Some v \<Rightarrow> Some (px (data ! Suc index), v)
               | None \<Rightarrow> getNext data (Suc index)))
      else None)"
  by pat_completeness auto
termination
  by (relation "measure (\<lambda>(data, index). length data - index)") auto

declare getNext.simps [simp del]

definition createGapFixPoint :: "int \<Rightarrow> int option \<Rightarrow> point" where
  "createGapFixPoint x y =
     \<lparr>px = x, py = y, ptype = Some TGapFix,
      pmarker = Some \<lparr>enabled = False, hover_enabled = False\<rparr>\<rparr>"

text \<open>\<^verbatim>\<open>insertGapFix(data, index, gapfix)\<close>: reads \<^verbatim>\<open>data[index].type\<close> (raising when there is
  no such element), returns without change when it is 'gapfix', and otherwise splices
  the new point in at \<open>index\<close>.\<close>

definition insertGapFix :: "point list \<Rightarrow> nat \<Rightarrow> point \<Rightarrow> error + point list" where
  "insertGapFix data index gapfix =
     (if length data \<le> index then Inl TypeError
      else if ptype (data ! index) = Some TGapFix then Inr data
      else Inr (splice0 index gapfix data))"

text \<open>\<^verbatim>\<open>gapIds.indexOf(iData)\<close>; \<open>None\<close> stands for \<open>-1\<close>.\<close>

fun indexOf :: "nat list \<Rightarrow> nat \<Rightarrow> nat option" where
  "indexOf [] v = None"
| "indexOf (u # us) v = (if u = v then Some 0 else map_option Suc (indexOf us v))"

text \<open>
  The inner scan loop of \<^verbatim>\<open>fixSeries\<close> over one data array, from position \<open>iData\<close> on:
  a point with \<^verbatim>\<open>y === null\<close> gets \<^verbatim>\<open>type = 'gap'\<close>, and its index is pushed as a new gap
  record or its series id is appended to the record already there. The state is the pair
  of arrays \<^verbatim>\<open>gaps\<close> and \<^verbatim>\<open>gapIds\<close>; the result also holds the data array as mutated.
\<close>

fun collectData ::
  "sid \<Rightarrow> nat \<Rightarrow> point list \<Rightarrow> gap list \<times> nat list \<Rightarrow> point list \<times> gap list \<times> nat list" where
  "collectData seriesId iData [] (gaps, gapIds) = ([], gaps, gapIds)"
| "collectData seriesId iData (p # ps) (gaps, gapIds) =
     (if py p = None then
        (case indexOf gapIds iData of
           None \<Rightarrow>
             (case collectData seriesId (Suc iData) ps
                     (gaps @ [\<lparr>gids = [seriesId], gindex = iData, gx = px p, gy = py p\<rparr>],
                      gapIds @ [iData]) of
                (ps', acc) \<Rightarrow> (p\<lparr>ptype := Some TGap\<rparr> # ps', acc))
         | Some gapIndex \<Rightarrow>
             (case collectData seriesId (Suc iData) ps
                     (gaps[gapIndex := (gaps ! gapIndex)
                             \<lparr>gids := gids (gaps ! gapIndex) @ [seriesId]\<rparr>],
                      gapIds) of
                (ps', acc) \<Rightarrow> (p\<lparr>ptype := Some TGap\<rparr> # ps', acc)))
      else
        (case collectData seriesId (Suc iData) ps (gaps, gapIds) of
           (ps', acc) \<Rightarrow> (p # ps', acc)))"

text \<open>The outer scan loop: \<^verbatim>\<open>series[iSeries].id\<close> is kept when defined and set to the
  position otherwise; then the data array is scanned.\<close>

fun collectSeries ::
  "nat \<Rightarrow> series list \<Rightarrow> gap list \<times> nat list \<Rightarrow> series list \<times> gap list \<times> nat list" where
  "collectSeries iSeries [] acc = ([], acc)"
| "collectSeries iSeries (s # ss) acc =
     (let seriesId = (case sid s of None \<Rightarrow> IdNum (int iSeries) | Some v \<Rightarrow> v) in
      case collectData seriesId 0 (sdata s) acc of
        (d, acc1) \<Rightarrow>
          (case collectSeries (Suc iSeries) ss acc1 of
             (ss', acc2) \<Rightarrow> (s\<lparr>sid := Some seriesId, sdata := d\<rparr> # ss', acc2)))"

text \<open>
  The body of the rewrite loop for one gap on one data array. The data array is mutated
  in place, so the result is the array as it stands when the body ends or raises,
  together with the exception if there is one.
\<close>

definition fixGap :: "int \<Rightarrow> point list \<Rightarrow> gap \<Rightarrow> point list \<times> error option" where
  "fixGap ftd data g =
     (case getPrev data (gindex g) of
        Inl e \<Rightarrow> (data, Some e)
      | Inr prev \<Rightarrow>
          (let next = getNext data (gindex g) in
           if length data \<le> gindex g then (data, Some TypeError)
           else
             (let isGap = (py (data ! gindex g) = None) in
              case (case next of
                      None \<Rightarrow> Inr data
                    | Some (nx, ny) \<Rightarrow>
                        insertGapFix data (gindex g + 1)
                          (createGapFixPoint (jsSub nx ftd) (if isGap then None else Some ny))) of
                Inl e \<Rightarrow> (data, Some e)
              | Inr data1 \<Rightarrow>
                  (case prev of
                     None \<Rightarrow> (data1, None)
                   | Some (qx, qy) \<Rightarrow>
                       (case insertGapFix data1 (gindex g)
                               (createGapFixPoint (jsAdd qx ftd) (if isGap then None else Some qy)) of
                          Inl e \<Rightarrow> (data1, Some e)
                        | Inr data2 \<Rightarrow> (data2, None))))))"

fun fixGaps :: "int \<Rightarrow> point list \<Rightarrow> gap list \<Rightarrow> point list \<times> error option" where
  "fixGaps ftd data [] = (data, None)"
| "fixGaps ftd data (g # gs) =
     (case fixGap ftd data g of
        (data1, Some e) \<Rightarrow> (data1, Some e)
      | (data1, None) \<Rightarrow> fixGaps ftd data1 gs)"

text \<open>The rewrite loop over the series; an exception leaves the later series as they are.\<close>

fun fixAll :: "int \<Rightarrow> gap list \<Rightarrow> series list \<Rightarrow> series list \<times> error option" where
  "fixAll ftd gaps [] = ([], None)"
| "fixAll ftd gaps (s # ss) =
     (case fixGaps ftd (sdata s) gaps of
        (d, Some e) \<Rightarrow> (s\<lparr>sdata := d\<rparr> # ss, Some e)
      | (d, None) \<Rightarrow>
          (case fixAll ftd gaps ss of (ss', r) \<Rightarrow> (s\<lparr>sdata := d\<rparr> # ss', r)))"

text \<open>
  \<^verbatim>\<open>fixSeries(series)\<close>: scan, sort the gaps descending by index
  (\<^verbatim>\<open>gaps.sort(sortByIndex).reverse()\<close>; the indices are pairwise different), rewrite.
  The result is the series array as the call leaves it, and the exception if one was
  raised; without one the call returns that same array.
\<close>

definition fixSeries :: "int \<Rightarrow> series list \<Rightarrow> series list \<times> error option" where
  "fixSeries ftd series =
     (case collectSeries 0 series ([], []) of
        (series1, gaps, gapIds) \<Rightarrow> fixAll ftd (rev (sort_key gindex gaps)) series1)"

section \<open>Revision 1.0.0 (src/unnamed/part_001)\<close>

text \<open>A JavaScript condition on a value that is a number or \<^verbatim>\<open>null\<close>: \<^verbatim>\<open>null\<close> and
  \<open>0\<close> are falsy.\<close>

definition truthy :: "int option \<Rightarrow> bool" where
  "truthy v = (case v of None \<Rightarrow> False | Some n \<Rightarrow> n \<noteq> 0)"

text \<open>\<^verbatim>\<open>getPrev\<close> and \<^verbatim>\<open>getNext\<close> of revision 1.0.0 take the immediate neighbour, whatever
  its value, and return \<^verbatim>\<open>{x, y, i}\<close> or \<^verbatim>\<open>null\<close>.\<close>

definition getPrev_v100 :: "point list \<Rightarrow> nat \<Rightarrow> (int \<times> int option \<times> nat) option" where
  "getPrev_v100 data index =
     (case index of
        0 \<Rightarrow> None
      | Suc i \<Rightarrow> if i < length data then Some (px (data ! i), py (data ! i), i) else None)"

definition getNext_v100 :: "point list \<Rightarrow> nat \<Rightarrow> (int \<times> int option \<times> nat) option" where
  "getNext_v100 data index =
     (if Suc index < length data
      then Some (px (data ! Suc index), py (data ! Suc index), Suc index) else None)"

definition createGapPoint :: "int \<Rightarrow> int option \<Rightarrow> point" where
  "createGapPoint x y =
     \<lparr>px = x, py = y, ptype = Some TGap,
      pmarker = Some \<lparr>enabled = False, hover_enabled = False\<rparr>\<rparr>"

text \<open>The record pushed to \<^verbatim>\<open>fixPoints\<close>: \<^verbatim>\<open>{id, index, x, xPrev, xNext, y}\<close>.\<close>

record fixPoint =
  fid :: sid
  findex :: nat
  fx :: int
  xPrev :: "int option"
  xNext :: "int option"
  fy :: "int option"

text \<open>The scan of one data array from \<open>iData\<close> on. After a gap with a successor the loop
  variable is set to the successor's index, so the successor itself is not examined.\<close>

function collectFix_v100 ::
  "sid \<Rightarrow> point list \<Rightarrow> nat \<Rightarrow> fixPoint list \<Rightarrow> fixPoint list" where
  "collectFix_v100 seriesId data iData fixPoints =
     (if iData < length data then
        (if py (data ! iData) = None then
           (case getNext_v100 data iData of
              Some (nx, ny, ni) \<Rightarrow>
                collectFix_v100 seriesId data (Suc ni)
                  (fixPoints @
                   [\<lparr>fid = seriesId, findex = iData, fx = px (data ! iData),
                     xPrev = map_option fst (getPrev_v100 data iData),
                     xNext = Some nx, fy = None\<rparr>])
            | None \<Rightarrow>
                collectFix_v100 seriesId data (Suc iData)
                  (fixPoints @
                   [\<lparr>fid = seriesId, findex = iData, fx = px (data ! iData),
                     xPrev = map_option fst (getPrev_v100 data iData),
                     xNext = None, fy = None\<rparr>]))
         else collectFix_v100 seriesId data (Suc iData) fixPoints)
      else fixPoints)"
  by pat_completeness auto
termination
  by (relation "measure (\<lambda>(seriesId, data, iData, fixPoints). length data - iData)")
     (auto simp: getNext_v100_def split: if_splits)

declare collectFix_v100.simps [simp del]

fun collectSeries_v100 ::
  "nat \<Rightarrow> series list \<Rightarrow> fixPoint list \<Rightarrow> series list \<times> fixPoint list" where
  "collectSeries_v100 iSeries [] fixPoints = ([], fixPoints)"
| "collectSeries_v100 iSeries (s # ss) fixPoints =
     (let seriesId = (case sid s of None \<Rightarrow> IdNum (int iSeries) | Some v \<Rightarrow> v) in
      case collectSeries_v100 (Suc iSeries) ss
             (collectFix_v100 seriesId (sdata s) 0 fixPoints) of
        (ss', fixPoints') \<Rightarrow> (s\<lparr>sid := Some seriesId\<rparr> # ss', fixPoints'))"

text \<open>\<^verbatim>\<open>data[i]\<close> for an index that may be \<open>-1\<close> (given as \<open>None\<close>) or past the end.\<close>

definition at :: "'a list \<Rightarrow> nat option \<Rightarrow> 'a option" where
  "at data i = (case i of None \<Rightarrow> None | Some n \<Rightarrow> if n < length data then Some (data ! n) else None)"

text \<open>The value a fix point takes in a series other than the one that reported the gap:
  \<^verbatim>\<open>(v && v.y !== null && v.x === bound) ? v.y : fix.y\<close>.\<close>

definition gapValue_v100 :: "point option \<Rightarrow> int option \<Rightarrow> int option \<Rightarrow> int option" where
  "gapValue_v100 v bound y =
     (case v of
        None \<Rightarrow> y
      | Some p \<Rightarrow> if py p \<noteq> None \<and> Some (px p) = bound then py p else y)"

definition insertFix_v100 :: "sid option \<Rightarrow> point list \<Rightarrow> fixPoint \<Rightarrow> point list" where
  "insertFix_v100 seriesId data fix =
     (let prevGapValue =
            (if Some (fid fix) \<noteq> seriesId
             then gapValue_v100 (at data (case findex fix of 0 \<Rightarrow> None | Suc i \<Rightarrow> Some i))
                    (xPrev fix) (fy fix)
             else fy fix);
          postGapValue =
            (if Some (fid fix) \<noteq> seriesId
             then gapValue_v100 (at data (Some (findex fix + 1))) (xNext fix) (fy fix)
             else fy fix);
          data1 = (if truthy (xNext fix)
                   then splice0 (findex fix + 1)
                          (createGapPoint (jsSub (the (xNext fix)) 1) postGapValue) data
                   else data)
      in if truthy (xPrev fix)
         then splice0 (findex fix) (createGapPoint (jsAdd (the (xPrev fix)) 1) prevGapValue) data1
         else data1)"

definition fixSeries_v100 :: "series list \<Rightarrow> series list" where
  "fixSeries_v100 series =
     (case collectSeries_v100 0 series [] of
        (series1, fixPoints) \<Rightarrow>
          map (\<lambda>s. s\<lparr>sdata := foldl (insertFix_v100 (sid s)) (sdata s) (rev fixPoints)\<rparr>)
            series1)"

section \<open>The single-series revision (src/stackedSeriesGapFix.js, first module)\<close>

text \<open>\<^verbatim>\<open>getPreFix(data, index)\<close>: \<^verbatim>\<open>while (--index >= 0) { if (data[index].y !== null) return {x, i} } return null\<close>.
  Reading \<^verbatim>\<open>data[index].y\<close> past the end raises.\<close>

fun getPreFix :: "point list \<Rightarrow> nat \<Rightarrow> error + (int \<times> nat) option" where
  "getPreFix data 0 = Inr None"
| "getPreFix data (Suc i) =
     (if length data \<le> i then Inl TypeError
      else if py (data ! i) \<noteq> None then Inr (Some (px (data ! i), i))
      else getPreFix data i)"

text \<open>\<^verbatim>\<open>getPostFix(data, index)\<close>: \<^verbatim>\<open>while (++index < data.length) { ... } return null\<close>.\<close>

function getPostFix :: "point list \<Rightarrow> nat \<Rightarrow> (int \<times> nat) option" where
  "getPostFix data index =
     (if Suc index < length data then
        (if py (data ! Suc index) \<noteq> None then Some (px (data ! Suc index), Suc index)
         else getPostFix data (Suc index))
      else None)"
  by pat_completeness auto
termination
  by (relation "measure (\<lambda>(data, index). length data - index)") auto

declare getPostFix.simps [simp del]

definition createFixPoint :: "int \<Rightarrow> int option \<Rightarrow> point" where
  "createFixPoint x y =
     \<lparr>px = x, py = y, ptype = Some TFix,
      pmarker = Some \<lparr>enabled = False, hover_enabled = False\<rparr>\<rparr>"

text \<open>The record pushed to \<^verbatim>\<open>fix\<close>: \<^verbatim>\<open>{index, x, xPre, xPost, y}\<close>.\<close>

record fixRec =
  rindex :: nat
  rx :: int
  xPre :: "int option"
  xPost :: "int option"
  ry :: "int option"

text \<open>The scan of the data array from \<open>i\<close> on. After a gap with a successor the loop
  variable is set to the successor's index, which lies further on.\<close>

lemma getPostFix_index: "getPostFix data i = Some (qx, qi) \<Longrightarrow> i < qi \<and> qi < length data"
proof (induction data i rule: getPostFix.induct)
  case (1 data index)
  from "1.prems" have lt: "Suc index < length data"
    by (subst (asm) getPostFix.simps) (simp split: if_splits)
  show ?case
  proof (cases "py (data ! Suc index) = None")
    case True
    with "1.prems" lt have "getPostFix data (Suc index) = Some (qx, qi)"
      by (subst (asm) getPostFix.simps) simp
    with "1.IH" lt True show ?thesis by fastforce
  next
    case False
    with "1.prems" lt show ?thesis
      by (subst (asm) getPostFix.simps) auto
  qed
qed

function collectFix_single ::
  "point list \<Rightarrow> nat \<Rightarrow> fixRec list \<Rightarrow> error + fixRec list" where
  "collectFix_single data i fix =
     (if i < length data then
        (if py (data ! i) = None then
           (case getPreFix data i of
              Inl e \<Rightarrow> Inl e
            | Inr pre \<Rightarrow>
                (case getPostFix data i of
                   Some (qx, qi) \<Rightarrow>
                     collectFix_single data (Suc qi)
                       (fix @ [\<lparr>rindex = i, rx = px (data ! i), xPre = map_option fst pre,
                                xPost = Some qx, ry = None\<rparr>])
                 | None \<Rightarrow>
                     collectFix_single data (Suc i)
                       (fix @ [\<lparr>rindex = i, rx = px (data ! i), xPre = map_option fst pre,
                                xPost = None, ry = None\<rparr>])))
         else collectFix_single data (Suc i) fix)
      else Inr fix)"
  by pat_completeness auto
termination
  by (relation "measure (\<lambda>(data, i, fix). length data - i)")
     (auto dest: getPostFix_index)

declare collectFix_single.simps [simp del]

text \<open>The insertion loop runs over \<^verbatim>\<open>fix\<close> in ascending order: first the predecessor
  side at \<^verbatim>\<open>index\<close>, then the successor side at \<^verbatim>\<open>index + 2\<close>.\<close>

definition insertFix_single :: "point list \<Rightarrow> fixRec \<Rightarrow> point list" where
  "insertFix_single data f =
     (let data1 = (if truthy (xPre f)
                   then splice0 (rindex f) (createFixPoint (jsAdd (the (xPre f)) 1) (ry f)) data
                   else data)
      in if truthy (xPost f)
         then splice0 (rindex f + 2) (createFixPoint (jsSub (the (xPost f)) 1) (ry f)) data1
         else data1)"

text \<open>\<^verbatim>\<open>fixSeries(series)\<close> of this revision takes one series and returns nothing; the
  result here is the series as mutated, or the exception.\<close>

definition fixSeries_single :: "series \<Rightarrow> error + series" where
  "fixSeries_single s =
     (case collectFix_single (sdata s) 0 [] of
        Inl e \<Rightarrow> Inl e
      | Inr fix \<Rightarrow> Inr (s\<lparr>sdata := foldl insertFix_single (sdata s) fix\<rparr>))"

text \<open>An input point \<^verbatim>\<open>{x: x, y: y}\<close> and an input series \<^verbatim>\<open>{data: [...]}\<close>.\<close>

definition pt :: "int \<Rightarrow> int option \<Rightarrow> point" where
  "pt x y = \<lparr>px = x, py = y, ptype = None, pmarker = None\<rparr>"

definition ser :: "point list \<Rightarrow> series" where
  "ser d = \<lparr>sid = None, sdata = d\<rparr>"

text \<open>Two aligned series of three points with spacing 5000, one with a gap in the middle
  and one with a gap at the end; the general theorems below are instantiated at them.\<close>

definition twoSeries :: "series list" where
  "twoSeries =
     [ser [pt 0 (Some 1), pt 5000 None, pt 10000 (Some 3)],
      ser [pt 0 (Some 2), pt 5000 (Some 2), pt 10000 None]]"

section \<open>Vocabulary for the statements and proofs\<close>

text \<open>What the scan of revision 1.1.0 makes of a point: a point with \<^verbatim>\<open>y === null\<close> gets
  the type 'gap', any other point is left as it is.\<close>

definition tagGap :: "point \<Rightarrow> point" where
  "tagGap p = (if py p = None then p\<lparr>ptype := Some TGap\<rparr> else p)"

text \<open>The id a series has after the scan: its own, or its position in the list.\<close>

definition assignedId :: "nat \<Rightarrow> series \<Rightarrow> sid" where
  "assignedId i s = (case sid s of None \<Rightarrow> IdNum (int i) | Some v \<Rightarrow> v)"

text \<open>The series list as the scan leaves it, for a list that starts at position \<open>i\<close>.\<close>

fun scanned :: "nat \<Rightarrow> series list \<Rightarrow> series list" where
  "scanned i [] = []"
| "scanned i (s # ss) =
     s\<lparr>sid := Some (assignedId i s), sdata := map tagGap (sdata s)\<rparr> # scanned (Suc i) ss"

text \<open>The array \<^verbatim>\<open>gapIds\<close> after the scan of one data array, and of all series.\<close>

fun scanIds :: "nat \<Rightarrow> point list \<Rightarrow> nat list \<Rightarrow> nat list" where
  "scanIds i [] ids = ids"
| "scanIds i (p # ps) ids =
     scanIds (Suc i) ps (if py p = None \<and> i \<notin> set ids then ids @ [i] else ids)"

fun scanAllIds :: "series list \<Rightarrow> nat list \<Rightarrow> nat list" where
  "scanAllIds [] ids = ids"
| "scanAllIds (s # ss) ids = scanAllIds ss (scanIds 0 (sdata s) ids)"

text \<open>A data array in which every point with a null value has the type 'gap', as after
  the scan.\<close>

definition tagged :: "point list \<Rightarrow> bool" where
  "tagged d \<longleftrightarrow> (\<forall>p \<in> set d. py p = None \<longrightarrow> ptype p = Some TGap)"

text \<open>
  The invariant of the rewrite loop over one data array \<open>data0\<close>, after the gap at index
  \<open>b\<close> has been handled (\<open>b\<close> is the length of the array before the first gap): the
  points below \<open>b\<close> are untouched, and the slot at \<open>b\<close> holds the original point or a
  fix point put before it.
\<close>

definition fixInv :: "point list \<Rightarrow> nat \<Rightarrow> point list \<Rightarrow> bool" where
  "fixInv data0 b data \<longleftrightarrow>
     b \<le> length data0 \<and> length data0 \<le> length data \<and> take b data = take b data0 \<and>
     (b = length data0 \<longrightarrow> data = data0) \<and>
     (b < length data0 \<longrightarrow> data ! b = data0 ! b \<or> ptype (data ! b) = Some TGapFix)"

section \<open>Number arithmetic\<close>

lemma ulp_small: "m < 9007199254740992 \<Longrightarrow> ulp m = 1"
  by (subst ulp.simps) simp

lemma roundDouble_exact:
  assumes "\<bar>n\<bar> < 9007199254740992"
  shows "roundDouble n = n"
proof -
  from assms have "ulp \<bar>n\<bar> = 1" by (rule ulp_small)
  then show ?thesis by (simp add: roundDouble_def Let_def mult_sgn_abs)
qed

lemma jsAdd_exact: "\<bar>a + b\<bar> < 9007199254740992 \<Longrightarrow> jsAdd a b = a + b"
  by (simp add: jsAdd_def roundDouble_exact)

lemma jsSub_exact: "\<bar>a - b\<bar> < 9007199254740992 \<Longrightarrow> jsSub a b = a - b"
  by (simp add: jsSub_def roundDouble_exact)

section \<open>The scan pass of revision 1.1.0\<close>

lemma indexOf_None: "indexOf us v = None \<longleftrightarrow> v \<notin> set us"
  by (induction us) auto

lemma indexOf_Some: "indexOf us v = Some k \<Longrightarrow> k < length us \<and> us ! k = v"
  by (induction us arbitrary: k) (auto split: if_splits)

lemma collectData_data: "fst (collectData seriesId i ps (gaps, gapIds)) = map tagGap ps"
  by (induction ps arbitrary: i gaps gapIds)
     (simp_all add: tagGap_def split_def split: option.splits)

lemma map_gindex_update:
  "map gindex (gaps[k := (gaps ! k)\<lparr>gids := v\<rparr>]) = map gindex gaps"
  by (cases "k < length gaps") (simp_all add: map_update list_update_same_conv list_update_beyond)

lemma collectData_ids:
  "map gindex gaps = gapIds \<Longrightarrow>
   collectData seriesId i ps (gaps, gapIds) = (ps', gaps', gapIds') \<Longrightarrow>
   map gindex gaps' = gapIds' \<and> gapIds' = scanIds i ps gapIds"
proof (induction ps arbitrary: i gaps gapIds ps')
  case Nil
  then show ?case by simp
next
  case (Cons p ps)
  show ?case
  proof (cases "py p = None")
    case False
    with Cons.prems obtain qs where "collectData seriesId (Suc i) ps (gaps, gapIds) = (qs, gaps', gapIds')"
      by (auto split: prod.splits)
    from Cons.IH [OF Cons.prems(1) this] False show ?thesis by auto
  next
    case True
    show ?thesis
    proof (cases "indexOf gapIds i")
      case None
      with True Cons.prems obtain qs where
        "collectData seriesId (Suc i) ps
           (gaps @ [\<lparr>gids = [seriesId], gindex = i, gx = px p, gy = py p\<rparr>], gapIds @ [i])
         = (qs, gaps', gapIds')"
        by (auto split: prod.splits)
      moreover have "map gindex (gaps @ [\<lparr>gids = [seriesId], gindex = i, gx = px p, gy = py p\<rparr>])
          = gapIds @ [i]"
        using Cons.prems(1) by simp
      ultimately have "map gindex gaps' = gapIds' \<and> gapIds' = scanIds (Suc i) ps (gapIds @ [i])"
        using Cons.IH by blast
      with None True show ?thesis by (simp add: indexOf_None)
    next
      case (Some k)
      with True Cons.prems obtain qs where
        "collectData seriesId (Suc i) ps
           (gaps[k := (gaps ! k)\<lparr>gids := gids (gaps ! k) @ [seriesId]\<rparr>], gapIds)
         = (qs, gaps', gapIds')"
        by (auto split: prod.splits)
      moreover have "map gindex (gaps[k := (gaps ! k)\<lparr>gids := gids (gaps ! k) @ [seriesId]\<rparr>])
          = gapIds"
        using Cons.prems(1) by (simp add: map_gindex_update)
      ultimately have "map gindex gaps' = gapIds' \<and> gapIds' = scanIds (Suc i) ps gapIds"
        using Cons.IH by blast
      moreover from Some have "i \<in> set gapIds"
        using indexOf_None [of gapIds i] by auto
      ultimately show ?thesis using True by simp
    qed
  qed
qed

lemma collectSeries_series: "fst (collectSeries i ss acc) = scanned i ss"
proof (induction ss arbitrary: i acc)
  case Nil
  then show ?case by simp
next
  case (Cons s ss)
  obtain gaps gapIds where acc: "acc = (gaps, gapIds)" by (cases acc)
  obtain d acc1 where d: "collectData (assignedId i s) 0 (sdata s) (gaps, gapIds) = (d, acc1)"
    by (cases "collectData (assignedId i s) 0 (sdata s) (gaps, gapIds)")
  then have "d = map tagGap (sdata s)"
    using collectData_data [of "assignedId i s" 0 "sdata s" gaps gapIds] by simp
  with Cons.IH [of "Suc i" acc1] acc d show ?case
    by (simp add: Let_def assignedId_def split_def)
qed

lemma collectSeries_ids:
  "map gindex gaps = gapIds \<Longrightarrow>
   collectSeries i ss (gaps, gapIds) = (ss', gaps', gapIds') \<Longrightarrow>
   map gindex gaps' = gapIds' \<and> gapIds' = scanAllIds ss gapIds"
proof (induction ss arbitrary: i gaps gapIds ss')
  case Nil
  then show ?case by simp
next
  case (Cons s ss)
  obtain d gaps1 gapIds1 where
    d: "collectData (assignedId i s) 0 (sdata s) (gaps, gapIds) = (d, gaps1, gapIds1)"
    by (cases "collectData (assignedId i s) 0 (sdata s) (gaps, gapIds)") auto
  from collectData_ids [OF Cons.prems(1) d]
  have 1: "map gindex gaps1 = gapIds1" and 2: "gapIds1 = scanIds 0 (sdata s) gapIds" by auto
  from Cons.prems(2) d obtain ts where
    "collectSeries (Suc i) ss (gaps1, gapIds1) = (ts, gaps', gapIds')"
    by (auto simp: Let_def assignedId_def split: prod.splits)
  from Cons.IH [OF 1 this] 2 show ?case by simp
qed

lemma set_scanIds:
  "set (scanIds i ps ids) = set ids \<union> {i + k |k. k < length ps \<and> py (ps ! k) = None}"
proof (induction ps arbitrary: i ids)
  case Nil
  then show ?case by simp
next
  case (Cons p ps)
  have *: "{i + k |k. k < Suc (length ps) \<and> py ((p # ps) ! k) = None}
      = (if py p = None then {i} else {}) \<union> {Suc i + k |k. k < length ps \<and> py (ps ! k) = None}"
    (is "?L = ?R")
  proof (intro set_eqI iffI)
    fix n assume "n \<in> ?L"
    then obtain k where k: "n = i + k" "k < Suc (length ps)" "py ((p # ps) ! k) = None" by blast
    show "n \<in> ?R"
    proof (cases k)
      case 0
      with k show ?thesis by simp
    next
      case (Suc j)
      with k show ?thesis by auto
    qed
  next
    fix n assume "n \<in> ?R"
    then consider "py p = None" "n = i" | k where "n = Suc i + k" "k < length ps" "py (ps ! k) = None"
      by (auto split: if_splits)
    then show "n \<in> ?L"
    proof cases
      case 1
      then have "n = i + 0 \<and> 0 < Suc (length ps) \<and> py ((p # ps) ! 0) = None" by simp
      then show ?thesis by blast
    next
      case 2
      then have "n = i + Suc k \<and> Suc k < Suc (length ps) \<and> py ((p # ps) ! Suc k) = None" by simp
      then show ?thesis by blast
    qed
  qed
  show ?case
    unfolding scanIds.simps Cons.IH using * by auto
qed

lemma distinct_scanIds: "distinct ids \<Longrightarrow> distinct (scanIds i ps ids)"
  by (induction ps arbitrary: i ids) auto

lemma distinct_scanAllIds: "distinct ids \<Longrightarrow> distinct (scanAllIds ss ids)"
  by (induction ss arbitrary: ids) (auto simp: distinct_scanIds)

lemma set_scanAllIds:
  "set (scanAllIds ss ids) =
     set ids \<union> {k. \<exists>s \<in> set ss. k < length (sdata s) \<and> py (sdata s ! k) = None}"
  by (induction ss arbitrary: ids) (auto simp: set_scanIds)

lemma px_tagGap [simp]: "px (tagGap p) = px p"
  by (simp add: tagGap_def)

lemma py_tagGap [simp]: "py (tagGap p) = py p"
  by (simp add: tagGap_def)

lemma tagged_tagGap: "tagged (map tagGap d)"
  by (auto simp: tagged_def tagGap_def)

lemma scanned_sdata: "map sdata (scanned i ss) = map (\<lambda>s. map tagGap (sdata s)) ss"
  by (induction ss arbitrary: i) auto

lemma scanned_set:
  "t \<in> set (scanned i ss) \<Longrightarrow> \<exists>s \<in> set ss. sdata t = map tagGap (sdata s)"
  by (induction ss arbitrary: i) auto

lemma scanned_nth:
  "k < length ss \<Longrightarrow>
   scanned i ss ! k =
     (ss ! k)\<lparr>sid := Some (assignedId (i + k) (ss ! k)), sdata := map tagGap (sdata (ss ! k))\<rparr>"
proof (induction ss arbitrary: i k)
  case Nil
  then show ?case by simp
next
  case (Cons s ss)
  then show ?case by (cases k) auto
qed

lemma length_scanned [simp]: "length (scanned i ss) = length ss"
  by (induction ss arbitrary: i) auto

lemma fixSeries_unfold:
  obtains gaps where "fixSeries ftd series = fixAll ftd (rev (sort_key gindex gaps)) (scanned 0 series)"
    and "map gindex gaps = scanAllIds series []"
proof -
  obtain ss gaps gapIds where c: "collectSeries 0 series ([], []) = (ss, gaps, gapIds)"
    by (cases "collectSeries 0 series ([], [])") auto
  then have "ss = scanned 0 series"
    using collectSeries_series [of 0 series "([], [])"] by simp
  moreover have "map gindex gaps = scanAllIds series []"
    using collectSeries_ids [OF _ c] by simp
  ultimately show ?thesis using c that by (simp add: fixSeries_def)
qed

section \<open>The rewrite pass of revision 1.1.0\<close>

subsection \<open>splice0\<close>

lemma length_splice0 [simp]: "length (splice0 i f d) = Suc (length d)"
  by (simp add: splice0_def)

lemma splice0_nth_before: "k < i \<Longrightarrow> i \<le> length d \<Longrightarrow> splice0 i f d ! k = d ! k"
  by (simp add: splice0_def nth_append)

lemma splice0_nth_at: "i \<le> length d \<Longrightarrow> splice0 i f d ! i = f"
  by (simp add: splice0_def nth_append)

lemma splice0_nth_after: "i \<le> k \<Longrightarrow> k < length d \<Longrightarrow> splice0 i f d ! Suc k = d ! k"
  by (simp add: splice0_def nth_append Suc_diff_le)

lemma take_splice0: "k \<le> i \<Longrightarrow> i \<le> length d \<Longrightarrow> take k (splice0 i f d) = take k d"
  by (simp add: splice0_def min_def)

lemma subseq_splice0: "subseq d (splice0 i f d)"
proof -
  have "subseq (take i d @ drop i d) (take i d @ f # drop i d)"
    by (intro list_emb_append_mono) (auto simp: subseq_Cons')
  then show ?thesis by (simp add: splice0_def)
qed

lemma sorted_splice0:
  assumes "sorted_wrt (<) (map px d)" and "i < length d"
    and "0 < i \<longrightarrow> px (d ! (i - 1)) < px f" and "px f < px (d ! i)"
  shows "sorted_wrt (<) (map px (splice0 i f d))"
proof -
  have d: "d = take i d @ drop i d" by simp
  have s: "sorted_wrt (<) (map px (take i d))" "sorted_wrt (<) (map px (drop i d))"
    and c: "\<forall>a \<in> set (take i d). \<forall>b \<in> set (drop i d). px a < px b"
    using assms(1) by (subst (asm) d, simp add: sorted_wrt_append sorted_wrt_map del: append_take_drop_id)+
  have hd: "drop i d = d ! i # drop (Suc i) d"
    using assms(2) by (simp add: Cons_nth_drop_Suc)
  have lo: "px a < px f" if "a \<in> set (take i d)" for a
  proof -
    from that obtain k where k: "k < i" "a = d ! k"
      using assms(2) by (auto simp: in_set_conv_nth)
    then have "0 < i" by simp
    have "px (d ! k) \<le> px (d ! (i - 1))"
    proof (cases "k = i - 1")
      case True then show ?thesis by simp
    next
      case False
      with k have "k < i - 1" by simp
      moreover have "i - 1 < length (map px d)" using assms(2) by simp
      ultimately have "map px d ! k < map px d ! (i - 1)"
        using assms(1) sorted_wrt_nth_less by blast
      then show ?thesis using assms(2) k by simp
    qed
    with assms(3) \<open>0 < i\<close> k show ?thesis by simp
  qed
  have hi: "px f < px b" if "b \<in> set (drop i d)" for b
  proof -
    from that hd have "b = d ! i \<or> b \<in> set (drop (Suc i) d)" by auto
    moreover have "\<forall>b \<in> set (drop (Suc i) d). px (d ! i) < px b"
      using s(2) hd by (simp add: sorted_wrt_map)
    ultimately show ?thesis using assms(4) by auto
  qed
  show ?thesis
    using s c lo hi by (auto simp: splice0_def sorted_wrt_append sorted_wrt_map)
qed


subsection \<open>getPrev, getNext, insertGapFix\<close>

lemma getPrev_tagged:
  assumes "i < length data" and "py (data ! i) = None \<longrightarrow> ptype (data ! i) = Some TGap"
  shows "getPrev data (Suc i) =
           Inr (if ptype (data ! i) = Some TGap then None
                else Some (px (data ! i), the (py (data ! i))))"
  using assms by (auto split: option.splits)

lemma getNext_Some_length: "getNext data g = Some r \<Longrightarrow> Suc g < length data"
  by (subst (asm) getNext.simps) (simp split: if_splits)

lemma insertGapFix_Inr:
  "i < length data \<Longrightarrow>
   insertGapFix data i f =
     Inr (if ptype (data ! i) = Some TGapFix then data else splice0 i f data)"
  by (simp add: insertGapFix_def)

lemma fixInv_nth:
  assumes "fixInv data0 b data" and "k < b"
  shows "data ! k = data0 ! k"
proof -
  from assms(1) have "take b data ! k = take b data0 ! k" by (simp add: fixInv_def)
  with assms(2) show ?thesis by simp
qed

lemma tagged_nth: "tagged d \<Longrightarrow> k < length d \<Longrightarrow> py (d ! k) = None \<Longrightarrow> ptype (d ! k) = Some TGap"
  by (simp add: tagged_def)

lemma getNext_fixInv:
  assumes inv: "fixInv data0 b data" and tg: "tagged data0" and gb: "g < b"
    and nx: "getNext data g = Some (nx, ny)"
    and nf: "ptype (data ! Suc g) \<noteq> Some TGapFix"
  shows "Suc g < length data0 \<and> data ! Suc g = data0 ! Suc g \<and> nx = px (data0 ! Suc g)"
proof -
  from nx have len: "Suc g < length data" by (rule getNext_Some_length)
  have eq: "Suc g < length data0 \<and> data ! Suc g = data0 ! Suc g"
  proof (cases "Suc g < b")
    case True
    from inv True have "Suc g < length data0" by (simp add: fixInv_def)
    with fixInv_nth [OF inv True] show ?thesis by simp
  next
    case False
    with gb have b: "b = Suc g" by simp
    show ?thesis
    proof (cases "b = length data0")
      case True
      with inv have "data = data0" by (simp add: fixInv_def)
      with len b True show ?thesis by simp
    next
      case False
      with inv have "b < length data0" by (simp add: fixInv_def)
      with inv nf b show ?thesis by (auto simp: fixInv_def)
    qed
  qed
  with tg have tag: "py (data ! Suc g) = None \<longrightarrow> ptype (data ! Suc g) = Some TGap"
    by (auto dest: tagged_nth)
  from nx len tag have "nx = px (data ! Suc g)"
    by (subst (asm) getNext.simps) (auto split: if_splits option.splits)
  with eq show ?thesis by simp
qed

lemma fixGap_step:
  assumes inv: "fixInv data0 b data" and tg: "tagged data0"
    and gb: "gindex g < b" and g0: "0 < gindex g"
  obtains data' where "fixGap ftd data g = (data', None)"
    and "fixInv data0 (gindex g) data'"
    and "sorted_wrt (<) (map px data) \<Longrightarrow> 0 < ftd \<Longrightarrow>
         successively (\<lambda>a c. a + ftd < c) (map px data0) \<Longrightarrow>
         \<forall>p \<in> set data0. \<bar>px p\<bar> + ftd < 9007199254740992 \<Longrightarrow>
         sorted_wrt (<) (map px data')"
proof -
  define k where "k = gindex g"
  from g0 obtain j where kj: "k = Suc j" unfolding k_def by (cases "gindex g") auto
  from inv gb have kb: "k < b" and b0: "b \<le> length data0" and l0: "length data0 \<le> length data"
    by (auto simp: k_def fixInv_def)
  then have lenk: "k < length data" and k0: "k < length data0" by auto
  have dk: "data ! k = data0 ! k"
    using inv kb by (rule fixInv_nth)
  have dj: "data ! j = data0 ! j"
    using kb kj by (intro fixInv_nth [OF inv]) simp
  define P where "P = (if ptype (data0 ! j) = Some TGap then None
                       else Some (px (data0 ! j), the (py (data0 ! j))))"
  have prev: "getPrev data k = Inr P"
    unfolding kj P_def dj [symmetric]
    using lenk kj dj tagged_nth [OF tg, of j] k0 by (intro getPrev_tagged) auto
  define isGap where "isGap = (py (data ! k) = None)"
  define N where "N = getNext data k"
  define data1 where "data1 = (case N of None \<Rightarrow> data
     | Some (nx, ny) \<Rightarrow> if ptype (data ! Suc k) = Some TGapFix then data
                        else splice0 (Suc k) (createGapFixPoint (jsSub nx ftd) (if isGap then None else Some ny)) data)"
  have ins1: "(case N of None \<Rightarrow> Inr data
               | Some (nx, ny) \<Rightarrow> insertGapFix data (k + 1) (createGapFixPoint (jsSub nx ftd) (if isGap then None else Some ny))) = Inr data1"
  proof (cases N)
    case None
    then show ?thesis by (simp add: data1_def)
  next
    case (Some r)
    then have "Suc k < length data" unfolding N_def by (rule getNext_Some_length)
    with Some show ?thesis
      by (cases r) (simp add: data1_def insertGapFix_Inr)
  qed
  have len1: "length data \<le> length data1"
    by (auto simp: data1_def split: option.splits)
  have nth1: "data1 ! i = data ! i" if "i \<le> k" for i
  proof (cases N)
    case None
    then show ?thesis by (simp add: data1_def)
  next
    case (Some r)
    then have "Suc k < length data" unfolding N_def by (rule getNext_Some_length)
    with Some that show ?thesis
      by (cases r) (simp add: data1_def splice0_nth_before)
  qed
  have take1: "take k data1 = take k data"
  proof (cases N)
    case None
    then show ?thesis by (simp add: data1_def)
  next
    case (Some r)
    then have "Suc k < length data" unfolding N_def by (rule getNext_Some_length)
    with Some show ?thesis
      by (cases r) (simp add: data1_def take_splice0)
  qed
  define data2 where "data2 = (case P of None \<Rightarrow> data1
     | Some (qx, qy) \<Rightarrow> if ptype (data1 ! k) = Some TGapFix then data1
                        else splice0 k (createGapFixPoint (jsAdd qx ftd) (if isGap then None else Some qy)) data1)"
  have lenk1: "k < length data1" using lenk len1 by simp
  have ins2: "(case P of None \<Rightarrow> (data1, None)
     | Some (qx, qy) \<Rightarrow> (case insertGapFix data1 k (createGapFixPoint (jsAdd qx ftd) (if isGap then None else Some qy)) of
          Inl e \<Rightarrow> (data1, Some e) | Inr d \<Rightarrow> (d, None))) = (data2, None)"
    using lenk1 by (cases P) (auto simp: data2_def insertGapFix_Inr)
  have fg: "fixGap ftd data g = (data2, None)"
    unfolding fixGap_def k_def [symmetric] prev
    using lenk ins1 ins2
    by (simp add: Let_def N_def [symmetric] isGap_def [symmetric])
  have len2: "length data1 \<le> length data2"
    by (auto simp: data2_def split: option.splits)
  have take2: "take k data2 = take k data1"
    using lenk1 by (auto simp: data2_def take_splice0 split: option.splits)
  have shape2: "data2 ! k = data0 ! k \<or> ptype (data2 ! k) = Some TGapFix"
  proof (cases P)
    case None
    then show ?thesis using nth1 [of k] dk by (simp add: data2_def)
  next
    case (Some r)
    then show ?thesis using nth1 [of k] dk lenk1
      by (cases r) (auto simp: data2_def splice0_nth_at createGapFixPoint_def)
  qed
  have "take k data = take k data0"
  proof -
    from inv have "take b data = take b data0" by (simp add: fixInv_def)
    then have "take k (take b data) = take k (take b data0)" by simp
    with kb show ?thesis by (simp add: min_def)
  qed
  with take1 take2 have take02: "take k data2 = take k data0" by simp
  have inv2: "fixInv data0 (gindex g) data2"
    unfolding fixInv_def k_def [symmetric]
    using k0 l0 len1 len2 take02 shape2 by auto
  have sorted2: "sorted_wrt (<) (map px data2)"
    if srt: "sorted_wrt (<) (map px data)" and pos: "0 < ftd"
      and sp: "successively (\<lambda>a c. a + ftd < c) (map px data0)"
      and safe: "\<forall>p \<in> set data0. \<bar>px p\<bar> + ftd < 9007199254740992"
  proof -
    have ex: "jsAdd (px (data0 ! i)) ftd = px (data0 ! i) + ftd"
      "jsSub (px (data0 ! i)) ftd = px (data0 ! i) - ftd" if "i < length data0" for i
    proof -
      from that safe have "\<bar>px (data0 ! i)\<bar> + ftd < 9007199254740992" by simp
      with pos have "\<bar>px (data0 ! i) + ftd\<bar> < 9007199254740992"
        "\<bar>px (data0 ! i) - ftd\<bar> < 9007199254740992" by linarith+
      then show "jsAdd (px (data0 ! i)) ftd = px (data0 ! i) + ftd"
        "jsSub (px (data0 ! i)) ftd = px (data0 ! i) - ftd"
        by (simp_all add: jsAdd_exact jsSub_exact)
    qed
    have j0: "j < length data0" using k0 kj by simp
    have gapk: "px (data0 ! j) + ftd < px (data0 ! k)"
      using successively_nth [OF sp, of j] k0 kj by simp
    have s1: "sorted_wrt (<) (map px data1)"
    proof (cases N)
      case None
      then show ?thesis using srt by (simp add: data1_def)
    next
      case (Some r)
      obtain nx ny where r: "r = (nx, ny)" by (cases r)
      show ?thesis
      proof (cases "ptype (data ! Suc k) = Some TGapFix")
        case True
        with Some r srt show ?thesis by (simp add: data1_def)
      next
        case False
        from Some r have "getNext data k = Some (nx, ny)" by (simp add: N_def)
        from getNext_fixInv [OF inv tg kb this False]
        have n: "Suc k < length data0" "data ! Suc k = data0 ! Suc k" "nx = px (data0 ! Suc k)"
          by auto
        have "px (data0 ! k) + ftd < px (data0 ! Suc k)"
          using successively_nth [OF sp, of k] n(1) by simp
        then have "sorted_wrt (<) (map px (splice0 (Suc k) (createGapFixPoint (jsSub nx ftd) (if isGap then None else Some ny)) data))"
          using srt n l0 dk pos ex(2) [OF n(1)]
          by (intro sorted_splice0) (auto simp: createGapFixPoint_def)
        with Some r False show ?thesis by (simp add: data1_def)
      qed
    qed
    show ?thesis
    proof (cases P)
      case None
      then show ?thesis using s1 by (simp add: data2_def)
    next
      case (Some r)
      obtain qx qy where r: "r = (qx, qy)" by (cases r)
      with Some have qx: "qx = px (data0 ! j)" by (auto simp: P_def split: if_splits)
      show ?thesis
      proof (cases "ptype (data1 ! k) = Some TGapFix")
        case True
        with Some r s1 show ?thesis by (simp add: data2_def)
      next
        case False
        have "data1 ! (k - 1) = data0 ! j" "data1 ! k = data0 ! k"
          using nth1 [of j] nth1 [of k] dj dk kj by auto
        then have "sorted_wrt (<) (map px (splice0 k (createGapFixPoint (jsAdd qx ftd) (if isGap then None else Some qy)) data1))"
          using s1 lenk1 gapk pos qx ex(1) [OF j0]
          by (intro sorted_splice0) (auto simp: createGapFixPoint_def)
        with Some r False show ?thesis by (simp add: data2_def)
      qed
    qed
  qed
  from that [OF fg inv2 sorted2] show ?thesis by blast
qed


lemma error_TypeError: "(e :: error) = TypeError"
  by (cases e)

lemma fixGap_index_0: "gindex g = 0 \<Longrightarrow> fixGap ftd data g = (data, Some TypeError)"
  by (simp add: fixGap_def)

lemma fixGap_index_beyond:
  "length data \<le> gindex g \<Longrightarrow> fixGap ftd data g = (data, Some TypeError)"
  by (cases "getPrev data (gindex g)") (simp_all add: fixGap_def Let_def error_TypeError)

lemma fixGaps_fixInv:
  assumes "fixInv data0 b data" and "tagged data0"
    and "sorted_wrt (>) (map gindex gs)" and "\<forall>g \<in> set gs. gindex g < b"
  shows "((\<forall>g \<in> set gs. 0 < gindex g) \<longrightarrow> snd (fixGaps ftd data gs) = None) \<and>
         (sorted_wrt (<) (map px data) \<longrightarrow> 0 < ftd \<longrightarrow>
          successively (\<lambda>a c. a + ftd < c) (map px data0) \<longrightarrow>
          (\<forall>p \<in> set data0. \<bar>px p\<bar> + ftd < 9007199254740992) \<longrightarrow>
          sorted_wrt (<) (map px (fst (fixGaps ftd data gs))))"
  using assms
proof (induction gs arbitrary: b data)
  case Nil
  then show ?case by simp
next
  case (Cons g gs)
  show ?case
  proof (cases "gindex g = 0")
    case True
    then show ?thesis by (simp add: fixGap_index_0)
  next
    case False
    then have g0: "0 < gindex g" by simp
    from Cons.prems(4) have gb: "gindex g < b" by simp
    from fixGap_step [OF Cons.prems(1,2) gb g0, of ftd] obtain data' where
      st: "fixGap ftd data g = (data', None)" and inv': "fixInv data0 (gindex g) data'"
      and srt: "sorted_wrt (<) (map px data) \<Longrightarrow> 0 < ftd \<Longrightarrow>
         successively (\<lambda>a c. a + ftd < c) (map px data0) \<Longrightarrow>
         \<forall>p \<in> set data0. \<bar>px p\<bar> + ftd < 9007199254740992 \<Longrightarrow>
         sorted_wrt (<) (map px data')"
      by blast
    from Cons.prems(3) have d: "sorted_wrt (>) (map gindex gs)"
      and lt: "\<forall>h \<in> set gs. gindex h < gindex g" by auto
    from Cons.IH [OF inv' Cons.prems(2) d lt] st srt show ?thesis by auto
  qed
qed

lemma fixInv_initial: "fixInv data0 (length data0) data0"
  by (simp add: fixInv_def)

lemma spaced_sorted:
  assumes "0 < ftd" and "successively (\<lambda>a c. a + ftd < c) (xs :: int list)"
  shows "sorted_wrt (<) xs"
proof -
  from assms have "successively (<) xs"
    by (auto elim!: successively_mono)
  then show ?thesis by (simp add: successively_conv_sorted_wrt)
qed

lemma fixGaps_no_error:
  assumes "tagged data0" and "sorted_wrt (>) (map gindex gs)"
    and "\<forall>g \<in> set gs. 0 < gindex g \<and> gindex g < length data0"
  shows "snd (fixGaps ftd data0 gs) = None"
  using fixGaps_fixInv [OF fixInv_initial assms(1,2), of ftd] assms(3) by simp

lemma fixGaps_sorted:
  assumes tg: "tagged data0" and desc: "sorted_wrt (>) (map gindex gs)"
    and pos: "0 < ftd" and sp: "successively (\<lambda>a c. a + ftd < c) (map px data0)"
    and safe: "\<forall>p \<in> set data0. \<bar>px p\<bar> + ftd < 9007199254740992"
  shows "sorted_wrt (<) (map px (fst (fixGaps ftd data0 gs)))"
proof (cases gs)
  case Nil
  then show ?thesis using spaced_sorted [OF pos sp] by simp
next
  case (Cons g gs')
  show ?thesis
  proof (cases "gindex g < length data0")
    case True
    with desc Cons have "\<forall>h \<in> set gs. gindex h < length data0" by auto
    from fixGaps_fixInv [OF fixInv_initial tg desc this, of ftd] pos sp safe
      spaced_sorted [OF pos sp]
    show ?thesis by simp
  next
    case False
    then have "fixGaps ftd data0 gs = (data0, Some TypeError)"
      using Cons by (simp add: fixGap_index_beyond)
    then show ?thesis using spaced_sorted [OF pos sp] by simp
  qed
qed

lemma fixGaps_index_0:
  "\<exists>g \<in> set gs. gindex g = 0 \<Longrightarrow> snd (fixGaps ftd data gs) = Some TypeError"
proof (induction gs arbitrary: data)
  case Nil
  then show ?case by simp
next
  case (Cons g gs)
  obtain d r where fg: "fixGap ftd data g = (d, r)" by (cases "fixGap ftd data g")
  show ?case
  proof (cases r)
    case (Some e)
    with fg show ?thesis by (simp add: error_TypeError)
  next
    case None
    with fg have "gindex g \<noteq> 0" using fixGap_index_0 [of g ftd data] by auto
    with Cons.prems have "\<exists>h \<in> set gs. gindex h = 0" by auto
    from Cons.IH [OF this] fg None show ?thesis by simp
  qed
qed

subsection \<open>The loop over the series\<close>

lemma fixAll_length: "length (fst (fixAll ftd gs ss)) = length ss"
  by (induction ss) (auto split: prod.splits option.splits)

lemma fixAll_pred:
  "\<forall>s \<in> set ss. P (sdata s) \<and> P (fst (fixGaps ftd (sdata s) gs)) \<Longrightarrow>
   \<forall>t \<in> set (fst (fixAll ftd gs ss)). P (sdata t)"
  by (induction ss) (auto split: prod.splits option.splits)

lemma fixAll_no_error:
  "\<forall>s \<in> set ss. snd (fixGaps ftd (sdata s) gs) = None \<Longrightarrow> snd (fixAll ftd gs ss) = None"
  by (induction ss) (auto split: prod.splits option.splits)

lemma fixAll_first_error:
  "snd (fixGaps ftd (sdata s) gs) = Some e \<Longrightarrow> snd (fixAll ftd gs (s # ss)) = Some e"
  by (auto split: prod.splits option.splits)

lemma desc_gaps:
  assumes "distinct (map gindex gaps)"
  shows "sorted_wrt (>) (map gindex (rev (sort_key gindex gaps)))"
proof -
  have "sorted (map gindex (sort_key gindex gaps))" by (rule sorted_sort_key)
  moreover have "distinct (map gindex (sort_key gindex gaps))"
    using assms by (simp add: distinct_map)
  ultimately have "sorted_wrt (<) (map gindex (sort_key gindex gaps))"
    by (simp add: strict_sorted_iff)
  then show ?thesis by (simp add: rev_map [symmetric] sorted_wrt_rev)
qed

lemma insertGapFix_subseq: "insertGapFix d i f = Inr d' \<Longrightarrow> subseq d d'"
  by (auto simp: insertGapFix_def subseq_splice0 split: if_splits)

lemma fixGap_subseq: "subseq d (fst (fixGap ftd d g))"
proof -
  have tr: "subseq d d1 \<Longrightarrow> subseq d1 d2 \<Longrightarrow> subseq d d2" for d1 d2 :: "point list"
    by (rule subseq_order.order_trans)
  show ?thesis
    unfolding fixGap_def Let_def
    by (auto split: sum.splits option.splits prod.splits
        dest!: insertGapFix_subseq intro: tr)
qed

lemma fixGaps_subseq: "subseq d (fst (fixGaps ftd d gs))"
proof (induction gs arbitrary: d)
  case Nil
  then show ?case by simp
next
  case (Cons g gs)
  obtain d1 r where fg: "fixGap ftd d g = (d1, r)" by (cases "fixGap ftd d g")
  then have 1: "subseq d d1" using fixGap_subseq [of d ftd g] by simp
  show ?case
  proof (cases r)
    case None
    with fg 1 Cons.IH [of d1] show ?thesis
      by (auto intro: subseq_order.order_trans)
  next
    case (Some e)
    with fg 1 show ?thesis by simp
  qed
qed

lemma fixAll_frame:
  "list_all2 (\<lambda>s t. sid t = sid s \<and> subseq (sdata s) (sdata t)) ss (fst (fixAll ftd gs ss))"
proof (induction ss)
  case Nil
  then show ?case by simp
next
  case (Cons s ss)
  obtain d r where fg: "fixGaps ftd (sdata s) gs = (d, r)" by (cases "fixGaps ftd (sdata s) gs")
  then have 1: "subseq (sdata s) d" using fixGaps_subseq [of "sdata s" ftd gs] by simp
  have refl: "list_all2 (\<lambda>s t. sid t = sid s \<and> subseq (sdata s) (sdata t)) ss ss"
    by (simp add: list_all2_refl)
  show ?case
  proof (cases r)
    case None
    with fg 1 Cons.IH show ?thesis by (auto split: prod.splits)
  next
    case (Some e)
    with fg 1 refl show ?thesis by simp
  qed
qed

lemma fixSeries_frame:
  assumes "i < length series"
  shows "sid (fst (fixSeries ftd series) ! i) = Some (assignedId i (series ! i))"
    and "subseq (map tagGap (sdata (series ! i))) (sdata (fst (fixSeries ftd series) ! i))"
proof -
  obtain gaps where u: "fixSeries ftd series = fixAll ftd (rev (sort_key gindex gaps)) (scanned 0 series)"
    by (rule fixSeries_unfold)
  have "list_all2 (\<lambda>s t. sid t = sid s \<and> subseq (sdata s) (sdata t)) (scanned 0 series)
          (fst (fixSeries ftd series))"
    unfolding u by (rule fixAll_frame)
  with assms have "sid (fst (fixSeries ftd series) ! i) = sid (scanned 0 series ! i) \<and>
      subseq (sdata (scanned 0 series ! i)) (sdata (fst (fixSeries ftd series) ! i))"
    by (simp add: list_all2_conv_all_nth)
  with assms show "sid (fst (fixSeries ftd series) ! i) = Some (assignedId i (series ! i))"
    and "subseq (map tagGap (sdata (series ! i))) (sdata (fst (fixSeries ftd series) ! i))"
    by (simp_all add: scanned_nth)
qed

lemma length_fixSeries: "length (fst (fixSeries ftd series)) = length series"
proof -
  obtain gaps where u: "fixSeries ftd series = fixAll ftd (rev (sort_key gindex gaps)) (scanned 0 series)"
    by (rule fixSeries_unfold)
  then show ?thesis by (simp add: fixAll_length)
qed

subsection \<open>Input without a gap\<close>

lemma scanIds_no_gap: "\<forall>p \<in> set ps. py p \<noteq> None \<Longrightarrow> scanIds i ps ids = ids"
  by (induction ps arbitrary: i) auto

lemma scanAllIds_no_gap:
  "\<forall>s \<in> set ss. \<forall>p \<in> set (sdata s). py p \<noteq> None \<Longrightarrow> scanAllIds ss ids = ids"
  by (induction ss) (auto simp: scanIds_no_gap)

lemma fixAll_no_gaps: "fixAll ftd [] ss = (ss, None)"
  by (induction ss) auto

lemma tagGap_no_gap: "\<forall>p \<in> set ps. py p \<noteq> None \<Longrightarrow> map tagGap ps = ps"
  by (induction ps) (auto simp: tagGap_def)

lemma scanned_scanned:
  "\<forall>s \<in> set ss. \<forall>p \<in> set (sdata s). py p \<noteq> None \<Longrightarrow> scanned i (scanned i ss) = scanned i ss"
  by (induction ss arbitrary: i) (auto simp: assignedId_def tagGap_no_gap)

lemma fixSeries_no_gap:
  assumes "\<forall>s \<in> set series. \<forall>p \<in> set (sdata s). py p \<noteq> None"
  shows "fixSeries ftd series = (scanned 0 series, None)"
proof -
  obtain gaps where u: "fixSeries ftd series = fixAll ftd (rev (sort_key gindex gaps)) (scanned 0 series)"
    and ids: "map gindex gaps = scanAllIds series []"
    by (rule fixSeries_unfold)
  from ids assms have "gaps = []" by (simp add: scanAllIds_no_gap)
  with u show ?thesis by (simp add: fixAll_no_gaps)
qed

subsection \<open>A run of adjacent gaps\<close>













lemma fixSeries_no_error:
  assumes len: "\<forall>s \<in> set series. length (sdata s) = n"
    and first: "\<forall>s \<in> set series. sdata s \<noteq> [] \<longrightarrow> py (sdata s ! 0) \<noteq> None"
  shows "snd (fixSeries ftd series) = None"
proof -
  obtain gaps where u: "fixSeries ftd series = fixAll ftd (rev (sort_key gindex gaps)) (scanned 0 series)"
    and ids: "map gindex gaps = scanAllIds series []"
    by (rule fixSeries_unfold)
  from ids have "distinct (map gindex gaps)" by (simp add: distinct_scanAllIds)
  then have desc: "sorted_wrt (>) (map gindex (rev (sort_key gindex gaps)))" by (rule desc_gaps)
  have rng: "0 < gindex g \<and> gindex g < n" if "g \<in> set (rev (sort_key gindex gaps))" for g
  proof -
    from that have "gindex g \<in> set (map gindex gaps)" by simp
    with ids obtain s where s: "s \<in> set series" "gindex g < length (sdata s)"
      "py (sdata s ! gindex g) = None"
      by (auto simp: set_scanAllIds)
    have "gindex g \<noteq> 0"
    proof
      assume "gindex g = 0"
      with s have "sdata s \<noteq> []" "py (sdata s ! 0) = None" by auto
      with first s(1) show False by blast
    qed
    with s len show ?thesis by auto
  qed
  have "\<forall>t \<in> set (scanned 0 series).
          snd (fixGaps ftd (sdata t) (rev (sort_key gindex gaps))) = None"
  proof
    fix t assume "t \<in> set (scanned 0 series)"
    then obtain s where s: "s \<in> set series" "sdata t = map tagGap (sdata s)"
      by (auto dest: scanned_set)
    with len have l: "length (sdata t) = n" by simp
    have tg: "tagged (sdata t)" using s by (simp add: tagged_tagGap)
    show "snd (fixGaps ftd (sdata t) (rev (sort_key gindex gaps))) = None"
      using rng l by (intro fixGaps_no_error [OF tg desc]) auto
  qed
  then have "snd (fixAll ftd (rev (sort_key gindex gaps)) (scanned 0 series)) = None"
    by (rule fixAll_no_error)
  with u show ?thesis by simp
qed

subsection \<open>What one rewrite step can change\<close>















subsection \<open>A run of adjacent gaps among other gaps\<close>




section \<open>Empty input\<close>

text \<open>
  C9: calling \<^verbatim>\<open>fixSeries\<close> of revision 1.1.0 on an empty series list raises nothing and
  leaves the empty list, at every fix distance.
\<close>

theorem fixSeries_empty: "fixSeries ftd [] = ([], None)"
  by (simp add: fixSeries_def)

section \<open>The documented examples\<close>

text \<open>
  C1: for s1 with x = 0..4 and y = 1 everywhere, and s2 with x = 0..4 and
  y = 2, 2, null, 2, 2, at distance 1 both revision 1.1.0 (whose constant is 1000; the
  distance is given as argument) and revision 1.0.0 (where the distance 1 is written into
  the code) insert one fix point before and one after index 2 into both series: in s1
  the two fix points carry the value 1, in s2 they carry null, they sit at the same x, 2,
  in both series, and each series ends with 7 points. The points are written out field
  by field: revision 1.1.0 gives the fix points the type 'gapfix' and the null point the
  type 'gap', revision 1.0.0 gives the fix points the type 'gap'.
\<close>

theorem asymmetric_series:
  "fixSeries 1
     [ser [pt 0 (Some 1), pt 1 (Some 1), pt 2 (Some 1), pt 3 (Some 1), pt 4 (Some 1)],
      ser [pt 0 (Some 2), pt 1 (Some 2), pt 2 None, pt 3 (Some 2), pt 4 (Some 2)]] =
   ([\<lparr>sid = Some (IdNum 0),
       sdata = [\<lparr>px = 0, py = Some 1, ptype = None, pmarker = None\<rparr>,
                \<lparr>px = 1, py = Some 1, ptype = None, pmarker = None\<rparr>,
                \<lparr>px = 2, py = Some 1, ptype = Some TGapFix, pmarker = Some \<lparr>enabled = False, hover_enabled = False\<rparr>\<rparr>,
                \<lparr>px = 2, py = Some 1, ptype = None, pmarker = None\<rparr>,
                \<lparr>px = 2, py = Some 1, ptype = Some TGapFix, pmarker = Some \<lparr>enabled = False, hover_enabled = False\<rparr>\<rparr>,
                \<lparr>px = 3, py = Some 1, ptype = None, pmarker = None\<rparr>,
                \<lparr>px = 4, py = Some 1, ptype = None, pmarker = None\<rparr>]\<rparr>,
     \<lparr>sid = Some (IdNum 1),
       sdata = [\<lparr>px = 0, py = Some 2, ptype = None, pmarker = None\<rparr>,
                \<lparr>px = 1, py = Some 2, ptype = None, pmarker = None\<rparr>,
                \<lparr>px = 2, py = None, ptype = Some TGapFix, pmarker = Some \<lparr>enabled = False, hover_enabled = False\<rparr>\<rparr>,
                \<lparr>px = 2, py = None, ptype = Some TGap, pmarker = None\<rparr>,
                \<lparr>px = 2, py = None, ptype = Some TGapFix, pmarker = Some \<lparr>enabled = False, hover_enabled = False\<rparr>\<rparr>,
                \<lparr>px = 3, py = Some 2, ptype = None, pmarker = None\<rparr>,
                \<lparr>px = 4, py = Some 2, ptype = None, pmarker = None\<rparr>]\<rparr>], None)
   \<and>
   fixSeries_v100
     [ser [pt 0 (Some 1), pt 1 (Some 1), pt 2 (Some 1), pt 3 (Some 1), pt 4 (Some 1)],
      ser [pt 0 (Some 2), pt 1 (Some 2), pt 2 None, pt 3 (Some 2), pt 4 (Some 2)]] =
   [\<lparr>sid = Some (IdNum 0),
      sdata = [\<lparr>px = 0, py = Some 1, ptype = None, pmarker = None\<rparr>,
               \<lparr>px = 1, py = Some 1, ptype = None, pmarker = None\<rparr>,
               \<lparr>px = 2, py = Some 1, ptype = Some TGap, pmarker = Some \<lparr>enabled = False, hover_enabled = False\<rparr>\<rparr>,
               \<lparr>px = 2, py = Some 1, ptype = None, pmarker = None\<rparr>,
               \<lparr>px = 2, py = Some 1, ptype = Some TGap, pmarker = Some \<lparr>enabled = False, hover_enabled = False\<rparr>\<rparr>,
               \<lparr>px = 3, py = Some 1, ptype = None, pmarker = None\<rparr>,
               \<lparr>px = 4, py = Some 1, ptype = None, pmarker = None\<rparr>]\<rparr>,
    \<lparr>sid = Some (IdNum 1),
      sdata = [\<lparr>px = 0, py = Some 2, ptype = None, pmarker = None\<rparr>,
               \<lparr>px = 1, py = Some 2, ptype = None, pmarker = None\<rparr>,
               \<lparr>px = 2, py = None, ptype = Some TGap, pmarker = Some \<lparr>enabled = False, hover_enabled = False\<rparr>\<rparr>,
               \<lparr>px = 2, py = None, ptype = None, pmarker = None\<rparr>,
               \<lparr>px = 2, py = None, ptype = Some TGap, pmarker = Some \<lparr>enabled = False, hover_enabled = False\<rparr>\<rparr>,
               \<lparr>px = 3, py = Some 2, ptype = None, pmarker = None\<rparr>,
               \<lparr>px = 4, py = Some 2, ptype = None, pmarker = None\<rparr>]\<rparr>]"
  by code_simp

text \<open>
  C8: two series A and B share one isolated gap (at any x, which may differ between the
  two) whose neighbours are the points (10, 5) and (20, 5). At distance 1, revision 1.1.0
  (whose constant is 1000; the distance is given as argument) leaves in both series a fix
  point with x = 11 and value null before the gap point and a fix point with x = 19 and
  value null after it; the gap point keeps its x and its null value (its type becomes
  'gap'). The single-series revision, which writes the distance 1 into the code, applied
  to A gives the same five points with the fix points of type 'fix', and the gap point
  unchanged. The points are written out field by field.
\<close>

theorem gap_symmetry:
  "fixSeries 1 [ser [pt 10 (Some 5), pt xa None, pt 20 (Some 5)],
                ser [pt 10 (Some 5), pt xb None, pt 20 (Some 5)]] =
   ([\<lparr>sid = Some (IdNum 0),
       sdata = [\<lparr>px = 10, py = Some 5, ptype = None, pmarker = None\<rparr>,
                \<lparr>px = 11, py = None, ptype = Some TGapFix, pmarker = Some \<lparr>enabled = False, hover_enabled = False\<rparr>\<rparr>,
                \<lparr>px = xa, py = None, ptype = Some TGap, pmarker = None\<rparr>,
                \<lparr>px = 19, py = None, ptype = Some TGapFix, pmarker = Some \<lparr>enabled = False, hover_enabled = False\<rparr>\<rparr>,
                \<lparr>px = 20, py = Some 5, ptype = None, pmarker = None\<rparr>]\<rparr>,
     \<lparr>sid = Some (IdNum 1),
       sdata = [\<lparr>px = 10, py = Some 5, ptype = None, pmarker = None\<rparr>,
                \<lparr>px = 11, py = None, ptype = Some TGapFix, pmarker = Some \<lparr>enabled = False, hover_enabled = False\<rparr>\<rparr>,
                \<lparr>px = xb, py = None, ptype = Some TGap, pmarker = None\<rparr>,
                \<lparr>px = 19, py = None, ptype = Some TGapFix, pmarker = Some \<lparr>enabled = False, hover_enabled = False\<rparr>\<rparr>,
                \<lparr>px = 20, py = Some 5, ptype = None, pmarker = None\<rparr>]\<rparr>], None)
   \<and>
   fixSeries_single (ser [pt 10 (Some 5), pt xa None, pt 20 (Some 5)]) =
   Inr \<lparr>sid = None,
        sdata = [\<lparr>px = 10, py = Some 5, ptype = None, pmarker = None\<rparr>,
                 \<lparr>px = 11, py = None, ptype = Some TFix, pmarker = Some \<lparr>enabled = False, hover_enabled = False\<rparr>\<rparr>,
                 \<lparr>px = xa, py = None, ptype = None, pmarker = None\<rparr>,
                 \<lparr>px = 19, py = None, ptype = Some TFix, pmarker = Some \<lparr>enabled = False, hover_enabled = False\<rparr>\<rparr>,
                 \<lparr>px = 20, py = Some 5, ptype = None, pmarker = None\<rparr>]\<rparr>"
proof
  show "fixSeries 1 [ser [pt 10 (Some 5), pt xa None, pt 20 (Some 5)],
                ser [pt 10 (Some 5), pt xb None, pt 20 (Some 5)]] =
   ([\<lparr>sid = Some (IdNum 0),
       sdata = [\<lparr>px = 10, py = Some 5, ptype = None, pmarker = None\<rparr>,
                \<lparr>px = 11, py = None, ptype = Some TGapFix, pmarker = Some \<lparr>enabled = False, hover_enabled = False\<rparr>\<rparr>,
                \<lparr>px = xa, py = None, ptype = Some TGap, pmarker = None\<rparr>,
                \<lparr>px = 19, py = None, ptype = Some TGapFix, pmarker = Some \<lparr>enabled = False, hover_enabled = False\<rparr>\<rparr>,
                \<lparr>px = 20, py = Some 5, ptype = None, pmarker = None\<rparr>]\<rparr>,
     \<lparr>sid = Some (IdNum 1),
       sdata = [\<lparr>px = 10, py = Some 5, ptype = None, pmarker = None\<rparr>,
                \<lparr>px = 11, py = None, ptype = Some TGapFix, pmarker = Some \<lparr>enabled = False, hover_enabled = False\<rparr>\<rparr>,
                \<lparr>px = xb, py = None, ptype = Some TGap, pmarker = None\<rparr>,
                \<lparr>px = 19, py = None, ptype = Some TGapFix, pmarker = Some \<lparr>enabled = False, hover_enabled = False\<rparr>\<rparr>,
                \<lparr>px = 20, py = Some 5, ptype = None, pmarker = None\<rparr>]\<rparr>], None)"
    by (simp add: fixSeries_def ser_def pt_def fixGap_def getNext.simps insertGapFix_def
        splice0_def createGapFixPoint_def Let_def jsAdd_exact jsSub_exact)
  show "fixSeries_single (ser [pt 10 (Some 5), pt xa None, pt 20 (Some 5)]) =
   Inr \<lparr>sid = None,
        sdata = [\<lparr>px = 10, py = Some 5, ptype = None, pmarker = None\<rparr>,
                 \<lparr>px = 11, py = None, ptype = Some TFix, pmarker = Some \<lparr>enabled = False, hover_enabled = False\<rparr>\<rparr>,
                 \<lparr>px = xa, py = None, ptype = None, pmarker = None\<rparr>,
                 \<lparr>px = 19, py = None, ptype = Some TFix, pmarker = Some \<lparr>enabled = False, hover_enabled = False\<rparr>\<rparr>,
                 \<lparr>px = 20, py = Some 5, ptype = None, pmarker = None\<rparr>]\<rparr>"
    by (simp add: fixSeries_single_def ser_def pt_def collectFix_single.simps getPostFix.simps
        insertFix_single_def truthy_def splice0_def createFixPoint_def jsAdd_exact jsSub_exact)
qed

section \<open>Monotone x\<close>

text \<open>
  C2, the statement for every input fails, because the code computes the x of a fix point
  in double arithmetic: for one series with the points (2^63, 1), (2^63 + 2048, null),
  (2^63 + 4096, 1), whose spacing 2048 exceeds the distance 1000 of the code, the sums
  \<open>2^63 + 1000\<close> and \<open>2^63 + 4096 - 1000\<close> round back to \<open>2^63\<close> and \<open>2^63 + 4096\<close>,
  so \<^verbatim>\<open>fixSeries\<close> of revision 1.1.0 returns a series in which each fix point has the x
  of its neighbour, and the x values are not strictly increasing.
\<close>

theorem expand_monotone_counterexample:
  "0 < fixTimeDistance \<and>
   9223372036854775808 + fixTimeDistance < 9223372036854777856 \<and>
   9223372036854777856 + fixTimeDistance < 9223372036854779904 \<and>
   fixSeries fixTimeDistance
     [ser [pt 9223372036854775808 (Some 1), pt 9223372036854777856 None,
           pt 9223372036854779904 (Some 1)]] =
     ([\<lparr>sid = Some (IdNum 0),
         sdata = [\<lparr>px = 9223372036854775808, py = Some 1, ptype = None, pmarker = None\<rparr>,
                  \<lparr>px = 9223372036854775808, py = None, ptype = Some TGapFix,
                    pmarker = Some \<lparr>enabled = False, hover_enabled = False\<rparr>\<rparr>,
                  \<lparr>px = 9223372036854777856, py = None, ptype = Some TGap, pmarker = None\<rparr>,
                  \<lparr>px = 9223372036854779904, py = None, ptype = Some TGapFix,
                    pmarker = Some \<lparr>enabled = False, hover_enabled = False\<rparr>\<rparr>,
                  \<lparr>px = 9223372036854779904, py = Some 1, ptype = None, pmarker = None\<rparr>]\<rparr>],
      None) \<and>
   \<not> sorted_wrt (<)
       (map px (sdata (hd (fst (fixSeries fixTimeDistance
          [ser [pt 9223372036854775808 (Some 1), pt 9223372036854777856 None,
                pt 9223372036854779904 (Some 1)]])))))"
  by code_simp

text \<open>
  C2 as amended: let the fix distance be positive and, in every series, let each point's x
  exceed its predecessor's x by more than the fix distance (so x is strictly increasing
  and the distance is smaller than the least spacing); let the x values be integers with
  \<open>|x| + distance < 2^53\<close>, so that the sums and differences of the code are exact. Then
  after \<^verbatim>\<open>fixSeries\<close> of revision 1.1.0 the x values of every series are strictly
  increasing: each inserted fix point lies strictly between its neighbours and no two
  points share an x. This holds for the series as the call leaves them, whether it
  returns or raises, and does not need the series to be aligned; the series are taken
  not to share their data arrays.
\<close>

theorem expand_monotone:
  assumes "0 < ftd"
    and "\<forall>s \<in> set series. successively (\<lambda>a c. a + ftd < c) (map px (sdata s))"
    and "\<forall>s \<in> set series. \<forall>p \<in> set (sdata s). \<bar>px p\<bar> + ftd < 9007199254740992"
  shows "\<forall>t \<in> set (fst (fixSeries ftd series)). sorted_wrt (<) (map px (sdata t))"
proof -
  obtain gaps where u: "fixSeries ftd series = fixAll ftd (rev (sort_key gindex gaps)) (scanned 0 series)"
    and ids: "map gindex gaps = scanAllIds series []"
    by (rule fixSeries_unfold)
  from ids have "distinct (map gindex gaps)" by (simp add: distinct_scanAllIds)
  then have desc: "sorted_wrt (>) (map gindex (rev (sort_key gindex gaps)))" by (rule desc_gaps)
  have "\<forall>s \<in> set (scanned 0 series).
          sorted_wrt (<) (map px (sdata s)) \<and>
          sorted_wrt (<) (map px (fst (fixGaps ftd (sdata s) (rev (sort_key gindex gaps)))))"
  proof
    fix t assume "t \<in> set (scanned 0 series)"
    then obtain s where s: "s \<in> set series" "sdata t = map tagGap (sdata s)"
      by (auto dest: scanned_set)
    with assms(2) have sp: "successively (\<lambda>a c. a + ftd < c) (map px (sdata t))"
      by (simp add: comp_def)
    have tg: "tagged (sdata t)" using s by (simp add: tagged_tagGap)
    have safe: "\<forall>p \<in> set (sdata t). \<bar>px p\<bar> + ftd < 9007199254740992"
      using s assms(3) by auto
    show "sorted_wrt (<) (map px (sdata t)) \<and>
          sorted_wrt (<) (map px (fst (fixGaps ftd (sdata t) (rev (sort_key gindex gaps)))))"
      using fixGaps_sorted [OF tg desc assms(1) sp safe] spaced_sorted [OF assms(1) sp] by simp
  qed
  then have "\<forall>t \<in> set (fst (fixAll ftd (rev (sort_key gindex gaps)) (scanned 0 series))).
               sorted_wrt (<) (map px (sdata t))"
    by (rule fixAll_pred [where P = "\<lambda>d. sorted_wrt (<) (map px d)"])
  with u show ?thesis by simp
qed

text \<open>The hypotheses of C2 as amended hold for two series with spacing 5000 at the
  distance 1000 of the code, and the theorem gives the conclusion there.\<close>

theorem expand_monotone_witness:
  "0 < fixTimeDistance \<and>
   list_all (\<lambda>s. successively (\<lambda>a c. a + fixTimeDistance < c) (map px (sdata s)))
     twoSeries \<and>
   list_all (\<lambda>s. list_all (\<lambda>p. \<bar>px p\<bar> + fixTimeDistance < 9007199254740992) (sdata s))
     twoSeries \<and>
   list_all (\<lambda>t. sorted_wrt (<) (map px (sdata t)))
     (fst (fixSeries fixTimeDistance twoSeries))"
proof -
  have h1: "0 < fixTimeDistance" by (simp add: fixTimeDistance_def)
  have h2: "\<forall>s \<in> set twoSeries.
      successively (\<lambda>a c. a + fixTimeDistance < c) (map px (sdata s))"
    by (simp add: twoSeries_def ser_def pt_def fixTimeDistance_def)
  have h3: "\<forall>s \<in> set twoSeries. \<forall>p \<in> set (sdata s).
      \<bar>px p\<bar> + fixTimeDistance < 9007199254740992"
    by (simp add: twoSeries_def ser_def pt_def fixTimeDistance_def)
  have c: "\<forall>t \<in> set (fst (fixSeries fixTimeDistance twoSeries)).
      sorted_wrt (<) (map px (sdata t))"
    using h1 h2 h3 by (rule expand_monotone)
  show ?thesis unfolding list_all_iff by (intro conjI h1 h2 h3 c)
qed

section \<open>Original points are kept\<close>

text \<open>
  C3: \<^verbatim>\<open>fixSeries\<close> of revision 1.1.0 keeps the number of series, and in every series the
  (x, y) pairs of the points that were there before the call are, in the same order, a
  subsequence of the (x, y) pairs after the call: points are only inserted, none is
  overwritten, reordered or deleted. This holds at every fix distance and for the series
  as the call leaves them, whether it returns or raises.
\<close>

theorem expand_keeps_points:
  "length (fst (fixSeries ftd series)) = length series \<and>
   (\<forall>i < length series.
      subseq (map (\<lambda>p. (px p, py p)) (sdata (series ! i)))
             (map (\<lambda>p. (px p, py p)) (sdata (fst (fixSeries ftd series) ! i))))"
proof (intro conjI allI impI)
  show "length (fst (fixSeries ftd series)) = length series" by (rule length_fixSeries)
next
  fix i assume "i < length series"
  then have "subseq (map tagGap (sdata (series ! i))) (sdata (fst (fixSeries ftd series) ! i))"
    by (rule fixSeries_frame)
  then have "subseq (map (\<lambda>p. (px p, py p)) (map tagGap (sdata (series ! i))))
                    (map (\<lambda>p. (px p, py p)) (sdata (fst (fixSeries ftd series) ! i)))"
    by (rule subseq_map)
  then show "subseq (map (\<lambda>p. (px p, py p)) (sdata (series ! i)))
             (map (\<lambda>p. (px p, py p)) (sdata (fst (fixSeries ftd series) ! i)))"
    by (simp add: comp_def)
qed

text \<open>C3 at the first of two series with spacing 5000.\<close>

theorem expand_keeps_points_witness:
  "0 < length twoSeries \<and>
   subseq (map (\<lambda>p. (px p, py p)) (sdata (twoSeries ! 0)))
          (map (\<lambda>p. (px p, py p)) (sdata (fst (fixSeries fixTimeDistance twoSeries) ! 0)))"
proof -
  have h: "0 < length twoSeries" by (simp add: twoSeries_def)
  from expand_keeps_points [THEN conjunct2, rule_format, OF h] h show ?thesis by blast
qed

section \<open>What the call changes besides inserting points\<close>

text \<open>
  C10: after \<^verbatim>\<open>fixSeries\<close> of revision 1.1.0, whether it returns or raises, the series at
  position i has the id it came with, or the id i when it came without one; and the
  points it came with are still there in their order, those with a null y now with the
  type 'gap'.
\<close>

theorem expand_marks_input:
  "length (fst (fixSeries ftd series)) = length series \<and>
   (\<forall>i < length series.
      sid (fst (fixSeries ftd series) ! i) =
        Some (case sid (series ! i) of None \<Rightarrow> IdNum (int i) | Some v \<Rightarrow> v) \<and>
      subseq (map tagGap (sdata (series ! i))) (sdata (fst (fixSeries ftd series) ! i)))"
  using fixSeries_frame [of _ series ftd] length_fixSeries [of ftd series]
  by (simp add: assignedId_def)

text \<open>C10 at the first of two series that come without an id.\<close>

theorem expand_marks_input_witness:
  "0 < length twoSeries \<and>
   sid (fst (fixSeries fixTimeDistance twoSeries) ! 0) =
     Some (case sid (twoSeries ! 0) of None \<Rightarrow> IdNum (int 0) | Some v \<Rightarrow> v) \<and>
   subseq (map tagGap (sdata (twoSeries ! 0)))
          (sdata (fst (fixSeries fixTimeDistance twoSeries) ! 0))"
proof -
  have h: "0 < length twoSeries" by (simp add: twoSeries_def)
  from expand_marks_input [THEN conjunct2, rule_format, OF h] h show ?thesis by blast
qed

section \<open>A gap at index 0\<close>

text \<open>
  C4: the claim is that a gap at index 0 gets only the successor-side fix point and that
  the call completes. In revision 1.1.0 it does not: whenever some series has a null y
  at index 0, \<^verbatim>\<open>getPrev\<close> decrements the index to \<open>-1\<close> and reads \<^verbatim>\<open>prev.type\<close> of
  \<^verbatim>\<open>undefined\<close>, so \<^verbatim>\<open>fixSeries\<close> raises a TypeError.
\<close>

theorem gap_at_index_0_raises:
  assumes "\<exists>s \<in> set series. sdata s \<noteq> [] \<and> py (sdata s ! 0) = None"
  shows "snd (fixSeries ftd series) = Some TypeError"
proof -
  obtain gaps where u: "fixSeries ftd series = fixAll ftd (rev (sort_key gindex gaps)) (scanned 0 series)"
    and ids: "map gindex gaps = scanAllIds series []"
    by (rule fixSeries_unfold)
  from assms have "0 \<in> set (scanAllIds series [])"
    by (auto simp: set_scanAllIds)
  with ids have "0 \<in> set (map gindex gaps)" by simp
  then have z: "\<exists>g \<in> set (rev (sort_key gindex gaps)). gindex g = 0" by auto
  from assms obtain s ss where "series = s # ss" by (cases series) auto
  then obtain t ts where "scanned 0 series = t # ts" by auto
  with u fixAll_first_error [OF fixGaps_index_0 [OF z], of ftd t ts] show ?thesis by simp
qed

text \<open>C4 at a series of two points whose first value is null.\<close>

theorem gap_at_index_0_raises_witness:
  "(\<exists>s \<in> set [ser [pt 0 None, pt 10000 (Some 5)]]. sdata s \<noteq> [] \<and> py (sdata s ! 0) = None) \<and>
   snd (fixSeries fixTimeDistance [ser [pt 0 None, pt 10000 (Some 5)]]) = Some TypeError"
proof -
  have h: "\<exists>s \<in> set [ser [pt 0 None, pt 10000 (Some 5)]]. sdata s \<noteq> [] \<and> py (sdata s ! 0) = None"
    by (simp add: ser_def pt_def)
  from gap_at_index_0_raises [OF h] h show ?thesis by blast
qed

section \<open>Runs of gaps\<close>



section \<open>Calling twice\<close>

text \<open>
  C6, the claim as stated fails: for one series with the points (0, 1), (10000, null),
  (20000, 1) the first call of \<^verbatim>\<open>fixSeries\<close> (revision 1.1.0, distance 1000) leaves five
  points, and a second call on that result leaves seven, because the scan gives the two
  null-valued fix points the type 'gap' and the guard of \<^verbatim>\<open>insertGapFix\<close> no longer
  sees them.
\<close>

theorem expand_twice_counterexample:
  "fixSeries fixTimeDistance [ser [pt 0 (Some 1), pt 10000 None, pt 20000 (Some 1)]] =
     ([\<lparr>sid = Some (IdNum 0),
         sdata = [pt 0 (Some 1), createGapFixPoint 1000 None,
                  (pt 10000 None)\<lparr>ptype := Some TGap\<rparr>,
                  createGapFixPoint 19000 None, pt 20000 (Some 1)]\<rparr>], None)
   \<and>
   fixSeries fixTimeDistance
     [\<lparr>sid = Some (IdNum 0),
        sdata = [pt 0 (Some 1), createGapFixPoint 1000 None,
                 (pt 10000 None)\<lparr>ptype := Some TGap\<rparr>,
                 createGapFixPoint 19000 None, pt 20000 (Some 1)]\<rparr>] =
     ([\<lparr>sid = Some (IdNum 0),
         sdata = [pt 0 (Some 1), createGapFixPoint 1000 None,
                  (createGapFixPoint 1000 None)\<lparr>ptype := Some TGap\<rparr>,
                  (pt 10000 None)\<lparr>ptype := Some TGap\<rparr>,
                  (createGapFixPoint 19000 None)\<lparr>ptype := Some TGap\<rparr>,
                  createGapFixPoint 19000 None, pt 20000 (Some 1)]\<rparr>], None)
   \<and>
   fixSeries fixTimeDistance
     (fst (fixSeries fixTimeDistance [ser [pt 0 (Some 1), pt 10000 None, pt 20000 (Some 1)]]))
   \<noteq> fixSeries fixTimeDistance [ser [pt 0 (Some 1), pt 10000 None, pt 20000 (Some 1)]]"
  by code_simp

text \<open>
  C6 as amended: when no point of the input has a null y, a second call of \<^verbatim>\<open>fixSeries\<close>
  (revision 1.1.0) on the result of the first gives the same as the first call; and the
  guard of \<^verbatim>\<open>insertGapFix\<close> makes one insertion repeatable: after a fix point has gone in
  at an index, inserting a fix point at that index again changes nothing.
\<close>

theorem expand_twice:
  "((\<forall>s \<in> set series. \<forall>p \<in> set (sdata s). py p \<noteq> None) \<longrightarrow>
      fixSeries ftd (fst (fixSeries ftd series)) = fixSeries ftd series) \<and>
   (insertGapFix data i (createGapFixPoint x y) = Inr data1 \<longrightarrow>
      insertGapFix data1 i (createGapFixPoint x' y') = Inr data1)"
proof (intro conjI impI)
  assume ng: "\<forall>s \<in> set series. \<forall>p \<in> set (sdata s). py p \<noteq> None"
  then have 1: "fixSeries ftd series = (scanned 0 series, None)" by (rule fixSeries_no_gap)
  have "\<forall>s \<in> set (scanned 0 series). \<forall>p \<in> set (sdata s). py p \<noteq> None"
    using ng by (auto dest!: scanned_set simp: tagGap_no_gap)
  then have "fixSeries ftd (scanned 0 series) = (scanned 0 (scanned 0 series), None)"
    by (rule fixSeries_no_gap)
  with 1 ng show "fixSeries ftd (fst (fixSeries ftd series)) = fixSeries ftd series"
    by (simp add: scanned_scanned)
next
  assume "insertGapFix data i (createGapFixPoint x y) = Inr data1"
  then show "insertGapFix data1 i (createGapFixPoint x' y') = Inr data1"
    by (auto simp: insertGapFix_def splice0_nth_at createGapFixPoint_def split: if_splits)
qed

text \<open>C6 as amended, at a series without a gap and at one insertion at index 1.\<close>

theorem expand_twice_witness:
  "list_all (\<lambda>s. list_all (\<lambda>p. py p \<noteq> None) (sdata s))
     [ser [pt 0 (Some 1), pt 10000 (Some 2)]] \<and>
   fixSeries fixTimeDistance
     (fst (fixSeries fixTimeDistance [ser [pt 0 (Some 1), pt 10000 (Some 2)]])) =
   fixSeries fixTimeDistance [ser [pt 0 (Some 1), pt 10000 (Some 2)]] \<and>
   insertGapFix [pt 0 (Some 1), pt 10000 None] 1 (createGapFixPoint 1000 None) =
     Inr [pt 0 (Some 1), createGapFixPoint 1000 None, pt 10000 None] \<and>
   insertGapFix [pt 0 (Some 1), createGapFixPoint 1000 None, pt 10000 None] 1
     (createGapFixPoint 1000 None) =
     Inr [pt 0 (Some 1), createGapFixPoint 1000 None, pt 10000 None]"
proof -
  have h1: "\<forall>s \<in> set [ser [pt 0 (Some 1), pt 10000 (Some 2)]]. \<forall>p \<in> set (sdata s). py p \<noteq> None"
    by (simp add: ser_def pt_def)
  have h2: "insertGapFix [pt 0 (Some 1), pt 10000 None] 1 (createGapFixPoint 1000 None) =
      Inr [pt 0 (Some 1), createGapFixPoint 1000 None, pt 10000 None]"
    by (simp add: insertGapFix_def splice0_def pt_def)
  note t = expand_twice [of "[ser [pt 0 (Some 1), pt 10000 (Some 2)]]" fixTimeDistance
      "[pt 0 (Some 1), pt 10000 None]" 1 1000 None
      "[pt 0 (Some 1), createGapFixPoint 1000 None, pt 10000 None]" 1000 None]
  have c1: "fixSeries fixTimeDistance
     (fst (fixSeries fixTimeDistance [ser [pt 0 (Some 1), pt 10000 (Some 2)]])) =
   fixSeries fixTimeDistance [ser [pt 0 (Some 1), pt 10000 (Some 2)]]"
    using t [THEN conjunct1] h1 by (rule mp)
  have c2: "insertGapFix [pt 0 (Some 1), createGapFixPoint 1000 None, pt 10000 None] 1
     (createGapFixPoint 1000 None) =
     Inr [pt 0 (Some 1), createGapFixPoint 1000 None, pt 10000 None]"
    using t [THEN conjunct2] h2 by (rule mp)
  have h1': "list_all (\<lambda>s. list_all (\<lambda>p. py p \<noteq> None) (sdata s))
     [ser [pt 0 (Some 1), pt 10000 (Some 2)]]"
    by (simp add: ser_def pt_def)
  show ?thesis by (intro conjI h1' c1 h2 c2)
qed

section \<open>Errors\<close>

text \<open>
  C7, the claim as stated fails: the code validates nothing, and an exception comes from
  the rewrite pass. For a first series with the points (0, 1), (10000, null), (20000, 1)
  and a second series with the single point (0, 1), \<^verbatim>\<open>fixSeries\<close> (revision 1.1.0)
  raises a TypeError at the second series, after the scan has set the ids and the type
  of the null point and after two fix points have been inserted into the first series.
\<close>

theorem expand_error_after_mutation:
  "fixSeries fixTimeDistance
     [ser [pt 0 (Some 1), pt 10000 None, pt 20000 (Some 1)], ser [pt 0 (Some 1)]] =
     ([\<lparr>sid = Some (IdNum 0),
         sdata = [pt 0 (Some 1), createGapFixPoint 1000 None,
                  (pt 10000 None)\<lparr>ptype := Some TGap\<rparr>,
                  createGapFixPoint 19000 None, pt 20000 (Some 1)]\<rparr>,
       \<lparr>sid = Some (IdNum 1), sdata = [pt 0 (Some 1)]\<rparr>], Some TypeError)
   \<and>
   fst (fixSeries fixTimeDistance
     [ser [pt 0 (Some 1), pt 10000 None, pt 20000 (Some 1)], ser [pt 0 (Some 1)]])
   \<noteq> [ser [pt 0 (Some 1), pt 10000 None, pt 20000 (Some 1)], ser [pt 0 (Some 1)]]"
  by code_simp

text \<open>
  C7 as amended: when all series have the same number of points and no series has a null
  y at index 0, \<^verbatim>\<open>fixSeries\<close> of revision 1.1.0 raises no exception, at every fix
  distance; so on such input there is no error and nothing to undo.
\<close>

theorem expand_no_error:
  assumes "\<forall>s \<in> set series. length (sdata s) = n"
    and "\<forall>s \<in> set series. sdata s \<noteq> [] \<longrightarrow> py (sdata s ! 0) \<noteq> None"
  shows "snd (fixSeries ftd series) = None"
  using assms by (rule fixSeries_no_error)

text \<open>C7 as amended, at two series of three points each.\<close>

theorem expand_no_error_witness:
  "list_all (\<lambda>s. length (sdata s) = 3) twoSeries \<and>
   list_all (\<lambda>s. py (sdata s ! 0) \<noteq> None) twoSeries \<and>
   snd (fixSeries fixTimeDistance twoSeries) = None"
proof -
  have h1: "\<forall>s \<in> set twoSeries. length (sdata s) = 3"
    by (simp add: twoSeries_def ser_def)
  have h2: "\<forall>s \<in> set twoSeries. sdata s \<noteq> [] \<longrightarrow> py (sdata s ! 0) \<noteq> None"
    by (simp add: twoSeries_def ser_def pt_def)
  have h2': "list_all (\<lambda>s. py (sdata s ! 0) \<noteq> None) twoSeries"
    by (simp add: twoSeries_def ser_def pt_def)
  have c: "snd (fixSeries fixTimeDistance twoSeries) = None"
    using h1 h2 by (rule expand_no_error)
  show ?thesis using h1 h2' c by (simp only: list_all_iff)
qed

end
